theory Spec2Isabelle
  imports Main "HOL-Library.Word" "HOL-Library.Signed_Division"
begin

unbundle bit_operations_syntax

text \<open>
  The log-structured store of the \<open>plasma\<close> package: the state word of a flush buffer,
  the flush buffer with its reservation, completion and read operations, and the store
  with its ring of buffers, its flush callback and its reservation and read paths. The
  Go source is embedded function by function; a run of the model is the run of one
  thread, or of several threads whose calls do not overlap.
\<close>

section \<open>Machine integers of the Go source\<close>

text \<open>
  The store is written in Go for a 64-bit platform: \<open>int\<close> and \<open>int64\<close> are 64-bit
  two's complement integers whose arithmetic wraps around, \<open>int32\<close> is the 32-bit one,
  and \<open>uint64\<close> is the type of the state word. Signed values are modelled as HOL
  integers; \<open>int64\<close> and \<open>int32\<close> write the wrap-around out wherever the source adds or
  subtracts. The state word is a \<open>64 word\<close>.
\<close>

definition int64 :: "int \<Rightarrow> int" where
  "int64 x = sint (word_of_int x :: 64 word)"

definition int32 :: "int \<Rightarrow> int" where
  "int32 x = sint (word_of_int x :: 32 word)"

text \<open>
  Failures of the source. \<open>errFBReadFailed\<close> is the error value returned by
  \<open>flushBuffer.Read\<close>; the others are run-time panics of Go (slicing out of bounds,
  indexing out of range, integer division by zero, \<open>make\<close> with a negative length, a nil
  pointer dereference, and the explicit \<open>panic("should not happen")\<close>).
\<close>

datatype error =
    errFBReadFailed
  | SliceBoundsOutOfRange
  | IndexOutOfRange
  | DivideByZero
  | MakeLenOutOfRange
  | NilDereference
  | ShouldNotHappen

section \<open>The state word\<close>

text \<open>
  \<^verbatim>\<open>
  func decodeState(state uint64) (bool, int, int) {
          isfull := state&0x1 == 0x1           // 1 bit
          nwriters := int(state >> 1 & 0xffff) // 32 bit
          offset := int(state >> 33)           // remaining bits
          return isfull, nwriters, offset
  }
  \<close>
  In Go \<open>>>\<close> and \<open>&\<close> have the same precedence and associate to the left, so the writer
  count is \<open>(state >> 1) & 0xffff\<close>.
\<close>

definition decodeState :: "64 word \<Rightarrow> bool \<times> int \<times> int" where
  "decodeState st =
     (let isfull = (st AND 0x1 = 0x1);
          nwriters = uint (drop_bit 1 st AND 0xffff);
          offset = uint (drop_bit 33 st)
      in (isfull, nwriters, offset))"

text \<open>
  \<^verbatim>\<open>
  func encodeState(isfull bool, nwriters int, offset int) uint64 {
          var isfullbits, nwritersbits, offsetbits uint64
          if isfull { isfullbits = 1 }
          nwritersbits = uint64(nwriters) << 1
          offsetbits = uint64(offset) << 33
          state := isfullbits | nwritersbits | offsetbits
          return state
  }
  \<close>
  The conversion \<open>uint64(n)\<close> of a signed \<open>n\<close> keeps the bit pattern: \<open>word_of_int\<close>.
\<close>

definition encodeState :: "bool \<Rightarrow> int \<Rightarrow> int \<Rightarrow> 64 word" where
  "encodeState isfull nwriters offset =
     (let isfullbits = (if isfull then 1 else 0);
          nwritersbits = push_bit 1 (word_of_int nwriters);
          offsetbits = push_bit 33 (word_of_int offset)
      in isfullbits OR nwritersbits OR offsetbits)"

section \<open>Flush buffers\<close>

text \<open>
  \<^verbatim>\<open>
  type flushBuffer struct {
          baseOffset int64
          b          []byte
          child      *flushBuffer
          state      uint64
          callb      flushCallback
  }
  \<close>
  Every flush buffer of the program is allocated by \<open>newLSStore\<close>; a pointer to one is
  its address (a natural number) in the heap of the store, and \<open>nil\<close> is \<open>None\<close>. The
  callback is the same function for every buffer of a store, so it is a parameter of
  \<open>Done\<close> below instead of a field. The arena \<open>b\<close> is made by \<open>make([]byte, sz)\<close>, so
  its capacity is its length.
\<close>

type_synonym byte = "8 word"

record flushBuffer =
  baseOffset :: int
  b :: "byte list"
  child :: "nat option"
  state :: "64 word"

text \<open>
  A slice cut from the arena of a buffer is the pair of its bounds \<open>(low, high)\<close>;
  the \<open>nil\<close> slice is \<open>None\<close>.
\<close>

type_synonym slice = "(nat \<times> nat) option"

definition slice_len :: "slice \<Rightarrow> nat" where
  "slice_len sl = (case sl of None \<Rightarrow> 0 | Some (lo, hi) \<Rightarrow> hi - lo)"

definition slice_bytes :: "flushBuffer \<Rightarrow> slice \<Rightarrow> byte list" where
  "slice_bytes fb sl = (case sl of None \<Rightarrow> [] | Some (lo, hi) \<Rightarrow> drop lo (take hi (b fb)))"

definition newFlushBuffer :: "int \<Rightarrow> error + flushBuffer" where
  "newFlushBuffer sz =
     (if sz < 0 then Inl MakeLenOutOfRange
      else Inr \<lparr>baseOffset = 0, b = replicate (nat sz) 0, child = None, state = 0\<rparr>)"

text \<open>\<open>Bytes\<close> is \<open>fb.b[:offset]\<close>, which panics when \<open>offset\<close> exceeds the capacity.\<close>

definition Bytes :: "flushBuffer \<Rightarrow> error + byte list" where
  "Bytes fb =
     (case decodeState (state fb) of (_, _, offset) \<Rightarrow>
        if offset > int (length (b fb)) then Inl SliceBoundsOutOfRange
        else Inr (take (nat offset) (b fb)))"

definition StartOffset :: "flushBuffer \<Rightarrow> int" where
  "StartOffset fb = baseOffset fb"

definition EndOffset :: "flushBuffer \<Rightarrow> int" where
  "EndOffset fb =
     (case decodeState (state fb) of (_, _, offset) \<Rightarrow> int64 (baseOffset fb + offset))"

definition NextBuffer :: "flushBuffer \<Rightarrow> nat option" where
  "NextBuffer fb = child fb"

definition IsFull :: "flushBuffer \<Rightarrow> bool" where
  "IsFull fb = (case decodeState (state fb) of (isfull, _, _) \<Rightarrow> isfull)"

definition Reset :: "flushBuffer \<Rightarrow> flushBuffer" where
  "Reset fb = fb\<lparr>baseOffset := 0, state := encodeState False 1 0, child := None\<rparr>"

text \<open>
  \<^verbatim>\<open>
  func (fb *flushBuffer) Read(off int64, buf []byte) (int, error) {
          base := fb.baseOffset
          start := int(off - base)
          _, _, offset := decodeState(fb.state)
          if base != fb.baseOffset || !(base <= off && off < base+int64(offset)) {
                  return 0, errFBReadFailed
          }
          l := len(buf)
          if start+l > len(fb.b) {
                  return 0, errFBReadFailed
          }
          copy(buf, fb.b[start:start+l])
          if base == fb.baseOffset {
                  return l, nil
          }
          return 0, errFBReadFailed
  }
  \<close>
  The model runs the call with no other thread writing \<open>baseOffset\<close> in between, so both
  re-reads of \<open>fb.baseOffset\<close> give \<open>base\<close>. The caller's \<open>buf\<close> enters by its length
  \<open>l\<close>; the result is the count and the bytes copied into \<open>buf\<close>.
\<close>

definition flushBuffer_Read :: "flushBuffer \<Rightarrow> int \<Rightarrow> nat \<Rightarrow> error + (int \<times> byte list)" where
  "flushBuffer_Read fb off l =
     (let base = baseOffset fb;
          start = int64 (off - base)
      in case decodeState (state fb) of (_, _, offset) \<Rightarrow>
        if base \<noteq> baseOffset fb \<or> \<not> (base \<le> off \<and> off < int64 (base + offset))
        then Inl errFBReadFailed
        else
          let hi = int64 (start + int l) in
          if hi > int (length (b fb)) then Inl errFBReadFailed
          else if start < 0 \<or> hi < start then Inl SliceBoundsOutOfRange
          else if base = baseOffset fb
               then Inr (int l, drop (nat start) (take (nat hi) (b fb)))
               else Inl errFBReadFailed)"

text \<open>
  \<^verbatim>\<open>
  func (fb *flushBuffer) Alloc(size int) (status bool, markedFull bool, off int64, buf []byte) {
  retry:
          state := atomic.LoadUint64(&fb.state)
          isfull, nw, offset := decodeState(state)
          if isfull {
                  return false, false, 0, nil
          }
          newOffset := size + offset
          if newOffset > len(fb.b) {
                  markedFull := true
                  newState := encodeState(true, nw, offset)
                  if !atomic.CompareAndSwapUint64(&fb.state, state, newState) {
                          goto retry
                  }
                  return false, markedFull, 0, nil
          }
          newState := encodeState(false, nw+1, newOffset)
          if !atomic.CompareAndSwapUint64(&fb.state, state, newState) {
                  goto retry
          }
          return true, false, fb.baseOffset + int64(offset), fb.b[offset:newOffset]
  }
  \<close>
  The model runs one call at a time: the word compared by the compare-and-swap is the
  word loaded just before, so the swap succeeds and \<open>goto retry\<close> is not taken. The
  state is swapped before the return values are computed, so when the slice expression
  \<open>fb.b[offset:newOffset]\<close> panics (\<open>newOffset < offset\<close>) the new state is already
  stored: \<open>Alloc\<close> returns the buffer it leaves behind together with the panic or the
  results.
\<close>

definition Alloc ::
  "flushBuffer \<Rightarrow> int \<Rightarrow> flushBuffer \<times> (error + (bool \<times> bool \<times> int \<times> slice))" where
  "Alloc fb sz =
     (case decodeState (state fb) of (isfull, nw, offset) \<Rightarrow>
        if isfull then (fb, Inr (False, False, 0, None))
        else
          let newOffset = int64 (sz + offset) in
          if newOffset > int (length (b fb))
          then (fb\<lparr>state := encodeState True nw offset\<rparr>, Inr (False, True, 0, None))
          else
            let fb' = fb\<lparr>state := encodeState False (nw + 1) newOffset\<rparr> in
            if newOffset < offset then (fb', Inl SliceBoundsOutOfRange)
            else (fb', Inr (True, False, int64 (baseOffset fb + offset),
                            Some (nat offset, nat newOffset))))"

text \<open>
  The first half of \<open>Done\<close>, on the buffer alone: the compare-and-swap that stores
  \<open>encodeState(isfull, nw-1, offset)\<close>, and the test \<open>nw == 1 && isfull\<close> on the values
  decoded before the swap, which decides whether the callback runs.
\<close>

definition Done_swap :: "flushBuffer \<Rightarrow> flushBuffer \<times> bool" where
  "Done_swap fb =
     (case decodeState (state fb) of (isfull, nw, offset) \<Rightarrow>
        (fb\<lparr>state := encodeState isfull (nw - 1) offset\<rparr>, nw = 1 \<and> isfull))"

section \<open>The log store\<close>

text \<open>
  \<^verbatim>\<open>
  type lsStore struct {
          w          *os.File
          r          *os.File
          maxSize    int64
          headOffset int64
          tailOffset int64
          head *flushBuffer
          bufSize   int
          flushBufs []*flushBuffer
          currBuf   int32
  }
  \<close>
  The handles \<open>w\<close> and \<open>r\<close> are opened on the same file: \<open>disk\<close> is its content. The
  operating system is taken to carry out every write and read it is asked for.
  \<open>heap\<close> maps the address of a flush buffer to the buffer.
\<close>

record lsStore =
  disk :: "byte list"
  maxSize :: int
  headOffset :: int
  tailOffset :: int
  head :: "nat option"
  bufSize :: int
  flushBufs :: "nat list"
  currBuf :: int
  heap :: "nat \<Rightarrow> flushBuffer"

text \<open>
  \<open>File.WriteAt\<close> refuses a negative offset and writes nothing for an empty slice;
  otherwise the bytes land at the offset, after a gap of zeros when the file is shorter.
  \<open>File.ReadAt\<close> reads up to \<open>l\<close> bytes at the offset and reports \<open>EOF\<close> when it
  got fewer.
\<close>

datatype ioerr = EOF | NegativeOffset

definition WriteAt :: "byte list \<Rightarrow> byte list \<Rightarrow> int \<Rightarrow> byte list" where
  "WriteAt f bs off =
     (if off < 0 \<or> bs = [] then f
      else let pos = nat off; f' = f @ replicate (pos - length f) 0
           in take pos f' @ bs @ drop (pos + length bs) f')"

definition ReadAt :: "byte list \<Rightarrow> nat \<Rightarrow> int \<Rightarrow> int \<times> byte list \<times> ioerr option" where
  "ReadAt f l off =
     (if off < 0 then (0, [], Some NegativeOffset)
      else let bs = take l (drop (nat off) f)
           in (int (length bs), bs, if length bs < l then Some EOF else None))"

text \<open>
  \<^verbatim>\<open>
  func (s *lsStore) flush(fb *flushBuffer) {
          fpos := fb.StartOffset() % s.maxSize
          s.w.WriteAt(fb.Bytes(), fpos)
          atomic.StorePointer((*unsafe.Pointer)(unsafe.Pointer(&s.head)), unsafe.Pointer(fb.child))
          atomic.StoreInt64(&s.tailOffset, fb.EndOffset())
          fb.Reset()
  }
  \<close>
  Go's \<open>%\<close> truncates towards zero (\<open>smod\<close>) and panics on a zero divisor. The result
  of \<open>WriteAt\<close> is dropped by the source.
\<close>

definition flush :: "lsStore \<Rightarrow> nat \<Rightarrow> error + lsStore" where
  "flush s fb =
     (if maxSize s = 0 then Inl DivideByZero
      else
        let fpos = StartOffset (heap s fb) smod maxSize s in
        case Bytes (heap s fb) of
          Inl e \<Rightarrow> Inl e
        | Inr bs \<Rightarrow>
            let s1 = s\<lparr>disk := WriteAt (disk s) bs fpos\<rparr>;
                s2 = s1\<lparr>head := child (heap s1 fb)\<rparr>;
                s3 = s2\<lparr>tailOffset := EndOffset (heap s2 fb)\<rparr>
            in Inr (s3\<lparr>heap := (heap s3)(fb := Reset (heap s3 fb))\<rparr>))"

text \<open>
  \<^verbatim>\<open>
  func (fb *flushBuffer) Done() {
  retry:
          state := atomic.LoadUint64(&fb.state)
          isfull, nw, offset := decodeState(state)
          newState := encodeState(isfull, nw-1, offset)
          if !atomic.CompareAndSwapUint64(&fb.state, state, newState) {
                  goto retry
          }
          if nw == 1 && isfull {
                  fb.callb(fb)
          }
          if fb.child != nil {
                  fb.child.Done()
          }
  }
  \<close>
  \<open>Done\<close> recurses along the \<open>child\<close> pointers, which may form a cycle, so it is a partial
  function: \<open>None\<close> is a call that does not return, \<open>Some (Inl e)\<close> a panic. The \<open>child\<close>
  pointer is read after the callback has run.
\<close>

partial_function (option) Done ::
  "(lsStore \<Rightarrow> nat \<Rightarrow> error + lsStore) \<Rightarrow> lsStore \<Rightarrow> nat \<Rightarrow> (error + lsStore) option" where
  "Done callb s fb =
     (case Done_swap (heap s fb) of (fb', fire) \<Rightarrow>
        case (if fire then callb (s\<lparr>heap := (heap s)(fb := fb')\<rparr>) fb
              else Inr (s\<lparr>heap := (heap s)(fb := fb')\<rparr>)) of
          Inl e \<Rightarrow> Some (Inl e)
        | Inr s' \<Rightarrow>
            (case child (heap s' fb) of
               None \<Rightarrow> Some (Inr s')
             | Some c \<Rightarrow> Done callb s' c))"

text \<open>
  \<^verbatim>\<open>
  func (fb *flushBuffer) Init(parent *flushBuffer, baseOffset int64) {
          fb.baseOffset = baseOffset
          if parent != nil {
                  fb.state = encodeState(false, 2, 0)
                  parent.child = fb
                  parent.Done()
          }
  }
  \<close>
\<close>

definition Init ::
  "(lsStore \<Rightarrow> nat \<Rightarrow> error + lsStore) \<Rightarrow> lsStore \<Rightarrow> nat \<Rightarrow> nat option \<Rightarrow> int
     \<Rightarrow> (error + lsStore) option" where
  "Init callb s fb parent baseOff =
     (let s1 = s\<lparr>heap := (heap s)(fb := (heap s fb)\<lparr>baseOffset := baseOff\<rparr>)\<rparr> in
      case parent of
        None \<Rightarrow> Some (Inr s1)
      | Some p \<Rightarrow>
          let s2 = s1\<lparr>heap := (heap s1)(fb := (heap s1 fb)\<lparr>state := encodeState False 2 0\<rparr>)\<rparr>;
              s3 = s2\<lparr>heap := (heap s2)(p := (heap s2 p)\<lparr>child := Some fb\<rparr>)\<rparr>
          in Done callb s3 p)"

text \<open>
  The loop \<open>for nextFb.IsFull() { runtime.Gosched() }\<close> of \<open>ReserveSpace\<close>. With no other
  thread running, a full buffer stays full and the loop does not end.
\<close>

partial_function (option) spin_while_full :: "lsStore \<Rightarrow> nat \<Rightarrow> unit option" where
  "spin_while_full s fb = (if IsFull (heap s fb) then spin_while_full s fb else Some ())"

text \<open>
  \<^verbatim>\<open>
  func (s *lsStore) ReserveSpace(size int) (lssOffset, []byte, lssResource) {
  retry:
          id := atomic.LoadInt32(&s.currBuf)
          fbid := int(id) % len(s.flushBufs)
          fb := s.flushBufs[fbid]
          success, markedFull, offset, buf := fb.Alloc(size)
          if !success {
                  if markedFull {
                          nextId := id + 1
                          nextFbid := int(nextId) % len(s.flushBufs)
                          nextFb := s.flushBufs[nextFbid]
                          for nextFb.IsFull() {
                                  runtime.Gosched()
                          }
                          nextFb.Init(fb, fb.EndOffset())
                          if !atomic.CompareAndSwapInt32(&s.currBuf, id, nextId) {
                                  panic("should not happen")
                          }
                  } else {
                          runtime.Gosched()
                          goto retry
                  }
          }
          return lssOffset(offset), buf, lssResource(fb)
  }
  \<close>
  \<open>lssOffset\<close> is \<open>uint64\<close>; the resource returned is the pointer \<open>fb\<close>. The remainder
  \<open>int(id) % len(s.flushBufs)\<close> panics on an empty ring and is negative, hence out of
  range as an index, for some negative \<open>id\<close>. Only the \<open>else\<close> branch jumps back to
  \<open>retry\<close>; the \<open>markedFull\<close> branch falls through to the \<open>return\<close>.
\<close>

partial_function (option) ReserveSpace ::
  "lsStore \<Rightarrow> int \<Rightarrow> (error + lsStore \<times> (64 word \<times> slice \<times> nat)) option" where
  "ReserveSpace s sz =
     (if flushBufs s = [] then Some (Inl DivideByZero)
      else if currBuf s smod int (length (flushBufs s)) < 0 then Some (Inl IndexOutOfRange)
      else
        let id = currBuf s;
            fb = flushBufs s ! nat (id smod int (length (flushBufs s)))
        in case Alloc (heap s fb) sz of (fb', res) \<Rightarrow>
          case res of
            Inl e \<Rightarrow> Some (Inl e)
          | Inr (success, markedFull, offset, buf) \<Rightarrow>
              if \<not> success then
                if markedFull then
                  let nextId = int32 (id + 1) in
                  if nextId smod int (length (flushBufs s)) < 0 then Some (Inl IndexOutOfRange)
                  else
                    let nextFb = flushBufs s ! nat (nextId smod int (length (flushBufs s)));
                        s1 = s\<lparr>heap := (heap s)(fb := fb')\<rparr>
                    in case spin_while_full s1 nextFb of
                         None \<Rightarrow> None
                       | Some _ \<Rightarrow>
                           (case Init flush s1 nextFb (Some fb) (EndOffset (heap s1 fb)) of
                              None \<Rightarrow> None
                            | Some (Inl e) \<Rightarrow> Some (Inl e)
                            | Some (Inr s2) \<Rightarrow>
                                if currBuf s2 \<noteq> id then Some (Inl ShouldNotHappen)
                                else Some (Inr (s2\<lparr>currBuf := nextId\<rparr>,
                                                (word_of_int offset, buf, fb))))
                else ReserveSpace (s\<lparr>heap := (heap s)(fb := fb')\<rparr>) sz
              else Some (Inr (s\<lparr>heap := (heap s)(fb := fb')\<rparr>, (word_of_int offset, buf, fb))))"

text \<open>
  \<^verbatim>\<open>
  func (s *lsStore) FinalizeWrite(res lssResource) {
          fb := res.(*flushBuffer)
          fb.Done()
  }
  \<close>
  Every buffer of a store is built with the callback \<open>s.flush\<close>.
\<close>

definition FinalizeWrite :: "lsStore \<Rightarrow> nat \<Rightarrow> (error + lsStore) option" where
  "FinalizeWrite s res = Done flush s res"

text \<open>
  The inner loop of \<open>lsStore.Read\<close>,
  \<^verbatim>\<open>
  for fb := start; fb != nil; fb = fb.NextBuffer() {
          if n, err := fb.Read(offset, buf); err == nil {
                  return n, nil
          }
          if fb == end {
                  break loop
          }
  }
  \<close>
  gives \<open>Some (Some r)\<close> when it leaves \<open>lsStore.Read\<close> (with a result or a panic) and
  \<open>Some None\<close> when the loop ends without one.
\<close>

partial_function (option) read_chain ::
  "lsStore \<Rightarrow> nat option \<Rightarrow> nat \<Rightarrow> int \<Rightarrow> nat \<Rightarrow> (error + (int \<times> byte list)) option option" where
  "read_chain s fb end' off l =
     (case fb of
        None \<Rightarrow> Some None
      | Some p \<Rightarrow>
          (case flushBuffer_Read (heap s p) off l of
             Inr r \<Rightarrow> Some (Some (Inr r))
           | Inl e \<Rightarrow>
               if e \<noteq> errFBReadFailed then Some (Some (Inl e))
               else if p = end' then Some None
               else read_chain s (NextBuffer (heap s p)) end' off l))"

text \<open>
  \<^verbatim>\<open>
  func (s *lsStore) Read(lssOf lssOffset, buf []byte) (int, error) {
          offset := int64(lssOf)
  retry:
          tail := atomic.LoadInt64(&s.tailOffset)
          if offset >= tail {
                  id := atomic.LoadInt32(&s.currBuf)
                  fbid := int(id) % len(s.flushBufs)
                  end := s.flushBufs[fbid]
                  start := s.head
                  startOffset := start.StartOffset()
                  endOffset := end.EndOffset()
                  if startOffset < endOffset && offset >= startOffset && offset < endOffset {
                          (the loop above)
                  }
                  goto retry
          }
          fpos := int64(offset) % s.maxSize
          return s.r.ReadAt(buf, fpos)
  }
  \<close>
\<close>

partial_function (option) lsStore_Read ::
  "lsStore \<Rightarrow> 64 word \<Rightarrow> nat \<Rightarrow> (error + (int \<times> byte list \<times> ioerr option)) option" where
  "lsStore_Read s lssOf l =
     (if sint lssOf \<ge> tailOffset s then
        if flushBufs s = [] then Some (Inl DivideByZero)
        else if currBuf s smod int (length (flushBufs s)) < 0 then Some (Inl IndexOutOfRange)
        else
          case head s of
            None \<Rightarrow> Some (Inl NilDereference)
          | Some start \<Rightarrow>
              let end' = flushBufs s ! nat (currBuf s smod int (length (flushBufs s)));
                  startOffset = StartOffset (heap s start);
                  endOffset = EndOffset (heap s end')
              in if startOffset < endOffset \<and> sint lssOf \<ge> startOffset \<and> sint lssOf < endOffset
                 then (case read_chain s (Some start) end' (sint lssOf) l of
                         None \<Rightarrow> None
                       | Some (Some (Inr (n, bs))) \<Rightarrow> Some (Inr (n, bs, None))
                       | Some (Some (Inl e)) \<Rightarrow> Some (Inl e)
                       | Some None \<Rightarrow> lsStore_Read s lssOf l)
                 else lsStore_Read s lssOf l
      else if maxSize s = 0 then Some (Inl DivideByZero)
      else Some (Inr (ReadAt (disk s) l (sint lssOf smod maxSize s))))"

declare Done.simps [code] spin_while_full.simps [code] ReserveSpace.simps [code]
declare read_chain.simps [code] lsStore_Read.simps [code]

text \<open>
  \<^verbatim>\<open>
  func newLSStore(file string, maxSize int64, bufSize int, nbufs int) (*lsStore, error) {
          s := &lsStore{
                  maxSize:   maxSize,
                  bufSize:   bufSize,
                  flushBufs: make([]*flushBuffer, nbufs),
          }
          (open s.w and s.r on file)
          for i, _ := range s.flushBufs {
                  s.flushBufs[i] = newFlushBuffer(bufSize, s.flush)
                  s.flushBufs[i].Reset()
          }
          s.head = s.flushBufs[0]
          return s, nil
  }
  \<close>
  The file is taken to open; \<open>f\<close> is the content it has then. Buffer \<open>i\<close> of the ring
  gets the address \<open>i\<close>.
\<close>

definition newLSStore :: "byte list \<Rightarrow> int \<Rightarrow> int \<Rightarrow> int \<Rightarrow> error + lsStore" where
  "newLSStore f maxSz bufSz nbufs =
     (if nbufs < 0 then Inl MakeLenOutOfRange
      else if nbufs = 0 then Inl IndexOutOfRange
      else case newFlushBuffer bufSz of
          Inl e \<Rightarrow> Inl e
        | Inr fb \<Rightarrow>
            Inr \<lparr>disk = f, maxSize = maxSz, headOffset = 0, tailOffset = 0, head = Some 0,
                 bufSize = bufSz, flushBufs = [0..<nat nbufs], currBuf = 0,
                 heap = (\<lambda>_. Reset fb)\<rparr>)"

section \<open>A client of the store\<close>

text \<open>
  The calls one thread after another can make on a store, run in order: reserve, copy a
  payload into a slice that a reservation returned (Go's \<open>copy(buf, src)\<close>, which copies
  \<open>min(len(buf), len(src))\<close> bytes), finalize a resource, read. Each call is recorded
  with what it returned and with \<open>tailOffset\<close> as it stands after the call.
\<close>

definition copy_to_slice :: "lsStore \<Rightarrow> nat \<Rightarrow> slice \<Rightarrow> byte list \<Rightarrow> lsStore" where
  "copy_to_slice s fb buf src =
     (case buf of
        None \<Rightarrow> s
      | Some (lo, hi) \<Rightarrow>
          let n = min (hi - lo) (length src);
              arena = b (heap s fb)
          in s\<lparr>heap := (heap s)(fb := (heap s fb)\<lparr>b := take lo arena @ take n src @ drop (lo + n) arena\<rparr>)\<rparr>)"

datatype call = Reserve int | Fill nat slice "byte list" | Finalize nat | ReadLog "64 word" nat

datatype outcome =
    Reserved "64 word" slice nat
  | Filled
  | Finalized
  | ReadDone int "byte list" "ioerr option"

definition api_call :: "lsStore \<Rightarrow> call \<Rightarrow> (error + lsStore \<times> outcome) option" where
  "api_call s c =
     (case c of
        Reserve sz \<Rightarrow>
          (case ReserveSpace s sz of
             None \<Rightarrow> None
           | Some (Inl e) \<Rightarrow> Some (Inl e)
           | Some (Inr (s', (off, buf, res))) \<Rightarrow> Some (Inr (s', Reserved off buf res)))
      | Fill fb buf src \<Rightarrow> Some (Inr (copy_to_slice s fb buf src, Filled))
      | Finalize res \<Rightarrow>
          (case FinalizeWrite s res of
             None \<Rightarrow> None
           | Some (Inl e) \<Rightarrow> Some (Inl e)
           | Some (Inr s') \<Rightarrow> Some (Inr (s', Finalized)))
      | ReadLog off l \<Rightarrow>
          (case lsStore_Read s off l of
             None \<Rightarrow> None
           | Some (Inl e) \<Rightarrow> Some (Inl e)
           | Some (Inr (n, bs, err)) \<Rightarrow> Some (Inr (s, ReadDone n bs err))))"

fun api_run ::
  "lsStore \<Rightarrow> call list \<Rightarrow> (error + lsStore \<times> (outcome \<times> int) list) option" where
  "api_run s [] = Some (Inr (s, []))"
| "api_run s (c # cs) =
     (case api_call s c of
        None \<Rightarrow> None
      | Some (Inl e) \<Rightarrow> Some (Inl e)
      | Some (Inr (s', out)) \<Rightarrow>
          (case api_run s' cs of
             None \<Rightarrow> None
           | Some (Inl e) \<Rightarrow> Some (Inl e)
           | Some (Inr (s'', outs)) \<Rightarrow> Some (Inr (s'', (out, tailOffset s') # outs))))"

definition session ::
  "int \<Rightarrow> int \<Rightarrow> int \<Rightarrow> call list \<Rightarrow> (error + lsStore \<times> (outcome \<times> int) list) option" where
  "session maxSz bufSz nbufs cs =
     (case newLSStore [] maxSz bufSz nbufs of
        Inl e \<Rightarrow> Some (Inl e)
      | Inr s \<Rightarrow> api_run s cs)"

definition outcomes ::
  "(error + lsStore \<times> (outcome \<times> int) list) option \<Rightarrow> (error + (outcome \<times> int) list) option" where
  "outcomes r = map_option (map_sum id snd) r"

text \<open>What is left in the store: the file, the tail, the cursor, the head and the buffers.\<close>

definition buffer_view :: "flushBuffer \<Rightarrow> (bool \<times> int \<times> int) \<times> int \<times> nat option" where
  "buffer_view fb = (decodeState (state fb), baseOffset fb, child fb)"

definition store_view ::
  "lsStore \<Rightarrow> byte list \<times> int \<times> int \<times> nat option \<times> ((bool \<times> int \<times> int) \<times> int \<times> nat option) list" where
  "store_view s =
     (disk s, tailOffset s, currBuf s, head s, map (\<lambda>p. buffer_view (heap s p)) (flushBufs s))"

definition final_view ::
  "(error + lsStore \<times> (outcome \<times> int) list) option
     \<Rightarrow> (error + byte list \<times> int \<times> int \<times> nat option \<times> ((bool \<times> int \<times> int) \<times> int \<times> nat option) list) option" where
  "final_view r = map_option (map_sum id (\<lambda>x. store_view (fst x))) r"

section \<open>One flush buffer under a sequence of operations\<close>

text \<open>
  \<open>Alloc\<close>, the swap of \<open>Done\<close> and \<open>Reset\<close> applied to one buffer, in order. A panic
  of \<open>Alloc\<close> ends the run. \<open>done_guarded\<close> says that every \<open>Done\<close> of the run meets a
  writer count of at least one.
\<close>

datatype fb_op = OpAlloc int | OpDone | OpReset

fun fb_apply :: "fb_op \<Rightarrow> flushBuffer \<Rightarrow> error + flushBuffer" where
  "fb_apply (OpAlloc sz) fb =
     (case Alloc fb sz of (fb', Inl e) \<Rightarrow> Inl e | (fb', Inr _) \<Rightarrow> Inr fb')"
| "fb_apply OpDone fb = Inr (fst (Done_swap fb))"
| "fb_apply OpReset fb = Inr (Reset fb)"

fun fb_run :: "flushBuffer \<Rightarrow> fb_op list \<Rightarrow> error + flushBuffer" where
  "fb_run fb [] = Inr fb"
| "fb_run fb (x # xs) = (case fb_apply x fb of Inl e \<Rightarrow> Inl e | Inr fb' \<Rightarrow> fb_run fb' xs)"

definition nwriters_of :: "flushBuffer \<Rightarrow> int" where
  "nwriters_of fb = (case decodeState (state fb) of (_, nw, _) \<Rightarrow> nw)"

definition offset_of :: "flushBuffer \<Rightarrow> int" where
  "offset_of fb = (case decodeState (state fb) of (_, _, offset) \<Rightarrow> offset)"

fun done_guarded :: "flushBuffer \<Rightarrow> fb_op list \<Rightarrow> bool" where
  "done_guarded fb [] = True"
| "done_guarded fb (x # xs) =
     ((if x = OpDone then 1 \<le> nwriters_of fb else True) \<and>
      (case fb_apply x fb of Inl e \<Rightarrow> True | Inr fb' \<Rightarrow> done_guarded fb' xs))"

definition fb_inv :: "flushBuffer \<Rightarrow> bool" where
  "fb_inv fb = (baseOffset fb = 0 \<and> offset_of fb \<le> int (length (b fb)))"

section \<open>Facts about the machine integers and the state word\<close>

lemma int64_id: "- (2 ^ 63) \<le> x \<Longrightarrow> x < 2 ^ 63 \<Longrightarrow> int64 x = x"
  unfolding int64_def by (simp add: signed_of_int signed_take_bit_int_eq_self)

lemma int64_eq: "int64 x = (x + 2 ^ 63) mod 2 ^ 64 - 2 ^ 63"
  unfolding int64_def
  by (simp add: signed_of_int signed_take_bit_eq_take_bit_shift take_bit_eq_mod)

lemma int64_wrap_high:
  assumes "2 ^ 63 \<le> x" and "x < 2 ^ 64"
  shows "int64 x = x - 2 ^ 64"
proof -
  have "(x + 2 ^ 63) mod 2 ^ 64 = x + 2 ^ 63 - 2 ^ 64"
    using assms by (simp add: mod_pos_geq)
  then show ?thesis
    by (simp add: int64_eq)
qed

lemma encodeState_full_bit: "(encodeState f nw off AND 1 = 1) = f"
  unfolding encodeState_def Let_def
  by (auto simp: and_one_eq even_or_iff simp flip: odd_iff_mod_2_eq_one)

lemma encodeState_nw_bits:
  "drop_bit 1 (encodeState f nw off) AND 0xffff = take_bit 16 (word_of_int nw)"
proof -
  have m: "(0xffff :: 64 word) = mask 16"
    by (simp add: mask_eq_exp_minus_1)
  show ?thesis
    unfolding encodeState_def Let_def m
    by (rule bit_word_eqI)
       (auto simp: bit_simps simp del: push_bit_Suc push_bit_of_Suc_0 One_nat_def)
qed

lemma encodeState_off_bits:
  assumes "0 \<le> nw" and "nw < 2 ^ 32"
  shows "drop_bit 33 (encodeState f nw off) = take_bit 31 (word_of_int off)"
proof -
  have "take_bit 32 nw = nw"
    using assms by (simp add: take_bit_int_eq_self)
  then have hi: "\<not> bit nw (32 + n)" for n
    by (metis bit_take_bit_iff not_add_less1)
  show ?thesis
    unfolding encodeState_def Let_def
    by (rule bit_word_eqI)
       (auto simp: bit_simps hi simp del: push_bit_Suc push_bit_of_Suc_0 One_nat_def)
qed

text \<open>
  What decoding an encoded word gives, for any writer count that fits in 32 bits: the
  flag, the count modulo \<open>2^16\<close> (the mask of \<open>decodeState\<close>) and the offset modulo
  \<open>2^31\<close>.
\<close>

lemma decode_encode_mod:
  assumes "0 \<le> nw" and "nw < 2 ^ 32"
  shows "decodeState (encodeState f nw off) = (f, nw mod 2 ^ 16, off mod 2 ^ 31)"
proof -
  have "uint (take_bit 16 (word_of_int nw :: 64 word)) = take_bit 16 (nw mod 2 ^ 64)"
    by (simp only: unsigned_take_bit_eq uint_word_of_int) simp
  also have "\<dots> = nw mod 2 ^ 16"
    by (simp add: take_bit_eq_mod mod_mod_cancel)
  finally have a: "uint (take_bit 16 (word_of_int nw :: 64 word)) = nw mod 2 ^ 16" .
  have "uint (take_bit 31 (word_of_int off :: 64 word)) = take_bit 31 (off mod 2 ^ 64)"
    by (simp only: unsigned_take_bit_eq uint_word_of_int) simp
  also have "\<dots> = off mod 2 ^ 31"
    by (simp add: take_bit_eq_mod mod_mod_cancel)
  finally have c: "uint (take_bit 31 (word_of_int off :: 64 word)) = off mod 2 ^ 31" .
  show ?thesis
    unfolding decodeState_def Let_def
    by (simp only: encodeState_full_bit encodeState_nw_bits
          encodeState_off_bits [OF assms] a c)
qed

lemma decode_encode:
  assumes "0 \<le> nw" and "nw < 2 ^ 16" and "0 \<le> off" and "off < 2 ^ 31"
  shows "decodeState (encodeState f nw off) = (f, nw, off)"
proof -
  have "nw < 2 ^ 32" using assms(2) by simp
  then show ?thesis
    using assms by (simp add: decode_encode_mod)
qed

lemma decodeState_range:
  assumes "decodeState st = (f, nw, off)"
  shows "0 \<le> nw \<and> nw < 2 ^ 16 \<and> 0 \<le> off \<and> off < 2 ^ 31"
proof -
  have m: "(0xffff :: 64 word) = mask 16"
    by (simp add: mask_eq_exp_minus_1)
  have "uint (drop_bit 1 st AND mask 16) = take_bit 16 (uint (drop_bit 1 st))"
    by (simp only: unsigned_take_bit_eq flip: take_bit_eq_mask)
  then have "uint (drop_bit 1 st AND mask 16) < 2 ^ 16"
    using take_bit_int_less_exp [of 16 "uint (drop_bit 1 st)"] by simp
  then have n: "uint (drop_bit 1 st AND 0xffff) < 2 ^ 16"
    unfolding m .
  have "uint (drop_bit 33 st) = uint st div 2 ^ 33"
    by (simp add: drop_bit_eq_div uint_div_distrib)
  moreover have "uint st < 2 ^ 64"
    using uint_bounded [of st] by simp
  ultimately have "uint (drop_bit 33 st) < 2 ^ 31"
    by simp
  with n show ?thesis
    using assms by (auto simp: decodeState_def Let_def)
qed

section \<open>Claims about the state word\<close>

text \<open>
  C2. The claim is that \<open>decodeState (encodeState full nwriters offset)\<close> gives back
  \<open>(full, nwriters, offset)\<close> for every writer count up to \<open>2^32 - 1\<close>. The mask in
  \<open>decodeState\<close> is \<open>0xffff\<close>, sixteen bits, although its comment says "32 bit": the
  writer count \<open>65536\<close> is encoded and then decoded as \<open>0\<close>. (Up to \<open>65535\<close> the round
  trip holds: \<open>decode_encode\<close>; beyond, the count comes back modulo \<open>2^16\<close>:
  \<open>decode_encode_mod\<close>.)
\<close>

theorem decodeState_truncates_nwriters:
  "decodeState (encodeState False 65536 0) = (False, 0, 0)"
  by (simp add: decodeState_def encodeState_def)

section \<open>Claims about \<open>Alloc\<close>\<close>

lemma Alloc_ok:
  assumes d: "decodeState (state fb) = (False, nw, off)"
    and sz: "0 \<le> sz" and fit: "off + sz \<le> int (length (b fb))"
    and cap: "length (b fb) < 2 ^ 31" and nw: "nw < 65535"
  shows "Alloc fb sz = (fb\<lparr>state := encodeState False (nw + 1) (off + sz)\<rparr>,
           Inr (True, False, int64 (baseOffset fb + off), Some (nat off, nat (off + sz))))"
    and "decodeState (encodeState False (nw + 1) (off + sz)) = (False, nw + 1, off + sz)"
proof -
  from decodeState_range [OF d] have r: "0 \<le> nw" "nw < 2 ^ 16" "0 \<le> off" "off < 2 ^ 31"
    by simp_all
  have lt: "off + sz < 2 ^ 31"
    using fit cap by simp
  have w: "int64 (sz + off) = off + sz"
    using r lt sz by (simp add: int64_id)
  show "decodeState (encodeState False (nw + 1) (off + sz)) = (False, nw + 1, off + sz)"
    using r lt sz nw by (simp add: decode_encode)
  show "Alloc fb sz = (fb\<lparr>state := encodeState False (nw + 1) (off + sz)\<rparr>,
           Inr (True, False, int64 (baseOffset fb + off), Some (nat off, nat (off + sz))))"
    using sz fit r by (simp add: Alloc_def d w Let_def)
qed

lemma Alloc_mark:
  assumes d: "decodeState (state fb) = (False, nw, off)"
    and big: "int (length (b fb)) < off + sz" and rng: "off + sz < 2 ^ 63"
  shows "Alloc fb sz = (fb\<lparr>state := encodeState True nw off\<rparr>, Inr (False, True, 0, None))"
    and "decodeState (encodeState True nw off) = (True, nw, off)"
proof -
  from decodeState_range [OF d] have r: "0 \<le> nw" "nw < 2 ^ 16" "0 \<le> off" "off < 2 ^ 31"
    by simp_all
  have w: "int64 (sz + off) = off + sz"
    using r big rng by (simp add: int64_id)
  show "Alloc fb sz = (fb\<lparr>state := encodeState True nw off\<rparr>, Inr (False, True, 0, None))"
    using big by (simp add: Alloc_def d w Let_def)
  show "decodeState (encodeState True nw off) = (True, nw, off)"
    using r by (simp add: decode_encode)
qed

lemma Alloc_full:
  assumes "decodeState (state fb) = (True, nw, off)"
  shows "Alloc fb sz = (fb, Inr (False, False, 0, None))"
  using assms by (simp add: Alloc_def)

lemma Alloc_wrapped:
  assumes d: "decodeState (state fb) = (False, nw, off)"
    and rng: "sz < 2 ^ 63" and over: "2 ^ 63 \<le> off + sz"
  shows "snd (Alloc fb sz) = Inl SliceBoundsOutOfRange"
proof -
  from decodeState_range [OF d] have r: "0 \<le> nw" "nw < 2 ^ 16" "0 \<le> off" "off < 2 ^ 31"
    by simp_all
  have w: "int64 (sz + off) = sz + off - 2 ^ 64"
    using r rng over by (simp add: int64_wrap_high)
  have "sz + off - 2 ^ 64 < 0"
    using r rng by simp
  then show ?thesis
    using r by (simp add: Alloc_def d w Let_def)
qed

text \<open>
  C4, as amended. For a buffer whose state decodes to \<open>(False, nw, off)\<close>:
  \<^item> when \<open>0 \<le> size\<close>, \<open>off + size \<le> capacity\<close>, the capacity is below \<open>2^31\<close> and
    \<open>nw < 65535\<close>, \<open>Alloc\<close> returns \<open>(true, false, baseOffset + off, b[off : off+size])\<close>
    (the sum in \<open>int64\<close>) and the new state decodes to \<open>(False, nw + 1, off + size)\<close>;
  \<^item> when \<open>off + size > capacity\<close> and the sum does not overflow \<open>int\<close>, \<open>Alloc\<close> stores
    \<open>full = true\<close> with \<open>nw\<close> and \<open>off\<close> unchanged and returns \<open>(false, true, 0, nil)\<close>.
  For a buffer whose state is already full, \<open>Alloc\<close> returns \<open>(false, false, 0, nil)\<close>
  and leaves the buffer as it is, for every size.
\<close>

theorem Alloc_cases:
  "(decodeState (state fb) = (False, nw, off) \<and> 0 \<le> sz \<and> off + sz \<le> int (length (b fb))
      \<and> length (b fb) < 2 ^ 31 \<and> nw < 65535 \<longrightarrow>
      Alloc fb sz = (fb\<lparr>state := encodeState False (nw + 1) (off + sz)\<rparr>,
        Inr (True, False, int64 (baseOffset fb + off), Some (nat off, nat (off + sz))))
      \<and> decodeState (encodeState False (nw + 1) (off + sz)) = (False, nw + 1, off + sz)
      \<and> slice_bytes fb (Some (nat off, nat (off + sz))) = take (nat sz) (drop (nat off) (b fb))
      \<and> slice_len (Some (nat off, nat (off + sz))) = nat sz)
   \<and> (decodeState (state fb) = (False, nw, off) \<and> int (length (b fb)) < off + sz
      \<and> off + sz < 2 ^ 63 \<longrightarrow>
      Alloc fb sz = (fb\<lparr>state := encodeState True nw off\<rparr>, Inr (False, True, 0, None))
      \<and> decodeState (encodeState True nw off) = (True, nw, off))
   \<and> (decodeState (state fb) = (True, nw, off) \<longrightarrow>
      Alloc fb sz = (fb, Inr (False, False, 0, None)))"
proof (intro conjI impI)
  assume a: "decodeState (state fb) = (False, nw, off) \<and> 0 \<le> sz \<and> off + sz \<le> int (length (b fb))
      \<and> length (b fb) < 2 ^ 31 \<and> nw < 65535"
  then have d: "decodeState (state fb) = (False, nw, off)" and sz: "0 \<le> sz"
    and fit: "off + sz \<le> int (length (b fb))" and cap: "length (b fb) < 2 ^ 31"
    and nw: "nw < 65535"
    by simp_all
  from decodeState_range [OF d] have off: "0 \<le> off"
    by simp
  show "Alloc fb sz = (fb\<lparr>state := encodeState False (nw + 1) (off + sz)\<rparr>,
        Inr (True, False, int64 (baseOffset fb + off), Some (nat off, nat (off + sz))))"
    by (rule Alloc_ok(1) [OF d sz fit cap nw])
  show "decodeState (encodeState False (nw + 1) (off + sz)) = (False, nw + 1, off + sz)"
    by (rule Alloc_ok(2) [OF d sz fit cap nw])
  show "slice_bytes fb (Some (nat off, nat (off + sz))) = take (nat sz) (drop (nat off) (b fb))"
    using off sz by (simp add: slice_bytes_def drop_take nat_add_distrib)
  show "slice_len (Some (nat off, nat (off + sz))) = nat sz"
    using off sz by (simp add: slice_len_def nat_add_distrib)
next
  assume a: "decodeState (state fb) = (False, nw, off) \<and> int (length (b fb)) < off + sz
      \<and> off + sz < 2 ^ 63"
  then have d: "decodeState (state fb) = (False, nw, off)"
    and big: "int (length (b fb)) < off + sz" and rng: "off + sz < 2 ^ 63"
    by simp_all
  show "Alloc fb sz = (fb\<lparr>state := encodeState True nw off\<rparr>, Inr (False, True, 0, None))"
    by (rule Alloc_mark(1) [OF d big rng])
  show "decodeState (encodeState True nw off) = (True, nw, off)"
    by (rule Alloc_mark(2) [OF d big rng])
next
  assume "decodeState (state fb) = (True, nw, off)"
  then show "Alloc fb sz = (fb, Inr (False, False, 0, None))"
    by (rule Alloc_full)
qed

text \<open>
  C4 as stated quantifies over every size. With the state \<open>(False, 1, 10)\<close>, capacity
  \<open>64\<close> and \<open>size = -5\<close> the sum \<open>off + size = 5\<close> is within the capacity, the state
  is swapped to \<open>(False, 2, 5)\<close>, and then the slice expression \<open>fb.b[10:5]\<close> panics:
  \<open>Alloc\<close> does not return \<open>(true, false, \<dots>)\<close>.
\<close>

theorem Alloc_negative_size_panics:
  "Alloc \<lparr>baseOffset = 0, b = replicate 64 0, child = None, state = encodeState False 1 10\<rparr> (- 5)
     = (\<lparr>baseOffset = 0, b = replicate 64 0, child = None, state = encodeState False 2 5\<rparr>,
        Inl SliceBoundsOutOfRange)
   \<and> decodeState (encodeState False 1 10) = (False, 1, 10)
   \<and> (10::int) + (- 5) \<le> int (length (replicate 64 (0::byte)))"
  by (simp add: Alloc_def decode_encode int64_id)

text \<open>The three cases of the amended C4 at capacity \<open>64\<close>.\<close>

theorem Alloc_cases_witness:
  "Alloc \<lparr>baseOffset = 0, b = replicate 64 0, child = None, state = encodeState False 1 10\<rparr> 20
     = (\<lparr>baseOffset = 0, b = replicate 64 0, child = None, state = encodeState False 2 30\<rparr>,
        Inr (True, False, 10, Some (10, 30)))
   \<and> decodeState (encodeState False 2 30) = (False, 2, 30)
   \<and> Alloc \<lparr>baseOffset = 0, b = replicate 64 0, child = None, state = encodeState False 1 10\<rparr> 60
     = (\<lparr>baseOffset = 0, b = replicate 64 0, child = None, state = encodeState True 1 10\<rparr>,
        Inr (False, True, 0, None))
   \<and> Alloc \<lparr>baseOffset = 0, b = replicate 64 0, child = None, state = encodeState True 1 10\<rparr> 20
     = (\<lparr>baseOffset = 0, b = replicate 64 0, child = None, state = encodeState True 1 10\<rparr>,
        Inr (False, False, 0, None))"
  using
    Alloc_cases [of "\<lparr>baseOffset = 0, b = replicate 64 0, child = None, state = encodeState False 1 10\<rparr>" 1 10 20]
    Alloc_cases [of "\<lparr>baseOffset = 0, b = replicate 64 0, child = None, state = encodeState False 1 10\<rparr>" 1 10 60]
    Alloc_cases [of "\<lparr>baseOffset = 0, b = replicate 64 0, child = None, state = encodeState True 1 10\<rparr>" 1 10 20]
  by (simp add: decode_encode int64_id)


text \<open>
  The bounds \<open>nw < 65535\<close> and \<open>capacity < 2^31\<close> of the amended C4 are needed: past
  them the count or the offset that \<open>Alloc\<close> encodes is not the one \<open>decodeState\<close> reads.
\<close>

lemma Alloc_count_wraps:
  "Alloc \<lparr>baseOffset = 0, b = replicate 64 0, child = None, state = encodeState False 65535 0\<rparr> 1
     = (\<lparr>baseOffset = 0, b = replicate 64 0, child = None, state = encodeState False 65536 1\<rparr>,
        Inr (True, False, 0, Some (0, 1)))
   \<and> decodeState (encodeState False 65536 1) = (False, 0, 1)"
proof -
  have "decodeState (encodeState False 65536 1) = (False, 0, 1)"
    by (simp add: decodeState_def encodeState_def)
  then show ?thesis
    by (simp add: Alloc_def decode_encode int64_id)
qed

lemma Alloc_offset_wraps:
  "Alloc \<lparr>baseOffset = 0, b = replicate 2147483648 0, child = None, state = encodeState False 1 0\<rparr>
       2147483648
     = (\<lparr>baseOffset = 0, b = replicate 2147483648 0, child = None,
          state = encodeState False 2 2147483648\<rparr>,
        Inr (True, False, 0, Some (0, 2147483648)))
   \<and> decodeState (encodeState False 2 2147483648) = (False, 2, 0)"
proof -
  have "decodeState (encodeState False 2 2147483648) = (False, 2, 0)"
    by (simp add: decodeState_def encodeState_def)
  then show ?thesis
    by (simp add: Alloc_def decode_encode int64_id)
qed

text \<open>
  C10, as amended. For every size above the capacity, \<open>Alloc\<close> never returns success.
  On a full buffer it returns \<open>(false, false, 0, nil)\<close>. On a buffer that is not full it
  stores \<open>full = true\<close> and returns \<open>(false, true, 0, nil)\<close>, however empty the buffer
  is, as long as \<open>off + size\<close> does not overflow \<open>int\<close>; when the sum overflows, the call
  panics in the slice expression.
\<close>

theorem Alloc_oversize:
  assumes d: "decodeState (state fb) = (full, nw, off)"
    and big: "int (length (b fb)) < sz" and rng: "sz < 2 ^ 63"
  shows "(case snd (Alloc fb sz) of Inl e \<Rightarrow> True | Inr (status, r) \<Rightarrow> status = False)
    \<and> (if full then Alloc fb sz = (fb, Inr (False, False, 0, None))
        else if off + sz < 2 ^ 63
          then Alloc fb sz = (fb\<lparr>state := encodeState True nw off\<rparr>, Inr (False, True, 0, None))
             \<and> decodeState (encodeState True nw off) = (True, nw, off)
          else snd (Alloc fb sz) = Inl SliceBoundsOutOfRange)"
proof -
  from decodeState_range [OF d] have r: "0 \<le> off"
    by simp
  show ?thesis
  proof (cases full)
    case True
    then show ?thesis
      using Alloc_full [of fb nw off sz] d by simp
  next
    case nf: False
    then have d': "decodeState (state fb) = (False, nw, off)"
      using d by simp
    have big': "int (length (b fb)) < off + sz"
      using big r by simp
    show ?thesis
    proof (cases "off + sz < 2 ^ 63")
      case True
      then show ?thesis
        using Alloc_mark [OF d' big' True] nf by simp
    next
      case False
      then have "2 ^ 63 \<le> off + sz" by simp
      from Alloc_wrapped [OF d' rng this] show ?thesis
        using nf False by simp
    qed
  qed
qed

text \<open>
  C10 as stated covers every size above the capacity. With the state \<open>(False, 1, 1)\<close>,
  capacity \<open>64\<close> and \<open>size = 2^63 - 1\<close>, the sum \<open>size + offset\<close> wraps to \<open>-2^63\<close>, the
  test \<open>newOffset > len(fb.b)\<close> fails, the state is swapped with \<open>full = false\<close>, and the
  slice expression panics: the buffer is not marked full and \<open>(false, true, 0, nil)\<close> is
  not returned.
\<close>

theorem Alloc_oversize_overflow_panics:
  "Alloc \<lparr>baseOffset = 0, b = replicate 64 0, child = None, state = encodeState False 1 1\<rparr>
       9223372036854775807
     = (\<lparr>baseOffset = 0, b = replicate 64 0, child = None,
          state = encodeState False 2 (- 9223372036854775808)\<rparr>,
        Inl SliceBoundsOutOfRange)
   \<and> decodeState (encodeState False 1 1) = (False, 1, 1)
   \<and> int (length (replicate 64 (0::byte))) < 9223372036854775807"
  by (simp add: Alloc_def decode_encode int64_wrap_high)

text \<open>The amended C10 on an empty buffer of capacity \<open>64\<close> asked for \<open>65\<close> bytes.\<close>

theorem Alloc_oversize_witness:
  "Alloc \<lparr>baseOffset = 0, b = replicate 64 0, child = None, state = encodeState False 1 0\<rparr> 65
     = (\<lparr>baseOffset = 0, b = replicate 64 0, child = None, state = encodeState True 1 0\<rparr>,
        Inr (False, True, 0, None))
   \<and> decodeState (encodeState True 1 0) = (True, 1, 0)"
  using Alloc_oversize
    [of "\<lparr>baseOffset = 0, b = replicate 64 0, child = None, state = encodeState False 1 0\<rparr>" False 1 0 65]
  by (simp add: decode_encode)

section \<open>Claims about \<open>flushBuffer.Read\<close>\<close>

text \<open>
  C7. \<open>flushBuffer.Read\<close> fails with \<open>errFBReadFailed\<close> exactly when \<open>off\<close> lies outside
  \<open>[baseOffset, baseOffset + fill)\<close> or \<open>off - baseOffset + len(buf)\<close> exceeds the capacity;
  otherwise it returns \<open>len(buf)\<close> and the \<open>len(buf)\<close> bytes of the arena from index
  \<open>off - baseOffset\<close> on. The hypotheses say that \<open>baseOffset\<close> and \<open>off\<close> are \<open>int64\<close>
  values, that the end offset of the buffer is one too, and that \<open>buf\<close> is a slice that
  fits in memory.
\<close>

theorem flushBuffer_Read_spec:
  assumes d: "decodeState (state fb) = (full, nw, fill)"
    and base: "- (2 ^ 63) \<le> baseOffset fb" "baseOffset fb + fill < 2 ^ 63"
    and off: "- (2 ^ 63) \<le> off" "off < 2 ^ 63"
    and l: "int l < 2 ^ 62"
  shows "flushBuffer_Read fb off l =
     (if \<not> (baseOffset fb \<le> off \<and> off < baseOffset fb + fill)
          \<or> int (length (b fb)) < off - baseOffset fb + int l
      then Inl errFBReadFailed
      else Inr (int l, take l (drop (nat (off - baseOffset fb)) (b fb))))
    \<and> (baseOffset fb \<le> off \<and> off - baseOffset fb + int l \<le> int (length (b fb)) \<longrightarrow>
         length (take l (drop (nat (off - baseOffset fb)) (b fb))) = l)"
proof -
  from decodeState_range [OF d] have r: "0 \<le> fill" "fill < 2 ^ 31"
    by simp_all
  have e: "int64 (baseOffset fb + fill) = baseOffset fb + fill"
    using base r by (simp add: int64_id)
  have len: "baseOffset fb \<le> off \<and> off - baseOffset fb + int l \<le> int (length (b fb)) \<longrightarrow>
         length (take l (drop (nat (off - baseOffset fb)) (b fb))) = l"
    by auto
  have "flushBuffer_Read fb off l =
     (if \<not> (baseOffset fb \<le> off \<and> off < baseOffset fb + fill)
          \<or> int (length (b fb)) < off - baseOffset fb + int l
      then Inl errFBReadFailed
      else Inr (int l, take l (drop (nat (off - baseOffset fb)) (b fb))))"
  proof (cases "baseOffset fb \<le> off \<and> off < baseOffset fb + fill")
    case False
    then show ?thesis
      by (auto simp: flushBuffer_Read_def d e Let_def)
  next
    case True
    then have s: "int64 (off - baseOffset fb) = off - baseOffset fb"
      using r by (simp add: int64_id)
    have h: "int64 (off - baseOffset fb + int l) = off - baseOffset fb + int l"
      using True r l by (simp add: int64_id)
    have t: "drop (nat (off - baseOffset fb)) (take (nat (off - baseOffset fb + int l)) (b fb))
        = take l (drop (nat (off - baseOffset fb)) (b fb))"
      using True by (simp add: drop_take nat_add_distrib)
    show ?thesis
      using True by (simp add: flushBuffer_Read_def d e s h t Let_def)
  qed
  with len show ?thesis
    by blast
qed

text \<open>
  C7 on a buffer at base \<open>100\<close> with capacity \<open>8\<close> and fill \<open>6\<close>: a
  read inside, one at the fill offset, one past the capacity, and one up to the capacity.
\<close>

theorem flushBuffer_Read_spec_witness:
  "flushBuffer_Read \<lparr>baseOffset = 100, b = [1, 2, 3, 4, 5, 6, 7, 8], child = None,
                      state = encodeState False 1 6\<rparr> 102 3 = Inr (3, [3, 4, 5])
   \<and> flushBuffer_Read \<lparr>baseOffset = 100, b = [1, 2, 3, 4, 5, 6, 7, 8], child = None,
                      state = encodeState False 1 6\<rparr> 106 1 = Inl errFBReadFailed
   \<and> flushBuffer_Read \<lparr>baseOffset = 100, b = [1, 2, 3, 4, 5, 6, 7, 8], child = None,
                      state = encodeState False 1 6\<rparr> 105 4 = Inl errFBReadFailed
   \<and> flushBuffer_Read \<lparr>baseOffset = 100, b = [1, 2, 3, 4, 5, 6, 7, 8], child = None,
                      state = encodeState False 1 6\<rparr> 105 3 = Inr (3, [6, 7, 8])"
  using
    flushBuffer_Read_spec [of "\<lparr>baseOffset = 100, b = [1, 2, 3, 4, 5, 6, 7, 8], child = None,
                      state = encodeState False 1 6\<rparr>" False 1 6 102 3]
    flushBuffer_Read_spec [of "\<lparr>baseOffset = 100, b = [1, 2, 3, 4, 5, 6, 7, 8], child = None,
                      state = encodeState False 1 6\<rparr>" False 1 6 106 1]
    flushBuffer_Read_spec [of "\<lparr>baseOffset = 100, b = [1, 2, 3, 4, 5, 6, 7, 8], child = None,
                      state = encodeState False 1 6\<rparr>" False 1 6 105 4]
    flushBuffer_Read_spec [of "\<lparr>baseOffset = 100, b = [1, 2, 3, 4, 5, 6, 7, 8], child = None,
                      state = encodeState False 1 6\<rparr>" False 1 6 105 3]
  by (simp add: decode_encode)


section \<open>The fill offset stays within the arena\<close>

lemma fb_inv_Reset: "fb_inv (Reset fb)"
  by (simp add: fb_inv_def offset_of_def Reset_def decode_encode)

lemma fb_inv_Done:
  assumes "fb_inv fb" and "1 \<le> nwriters_of fb"
  shows "fb_inv (fst (Done_swap fb))"
proof -
  obtain f nw off where d: "decodeState (state fb) = (f, nw, off)"
    by (cases "decodeState (state fb)") auto
  from decodeState_range [OF d] have r: "0 \<le> nw" "nw < 2 ^ 16" "0 \<le> off" "off < 2 ^ 31"
    by simp_all
  have "decodeState (encodeState f (nw - 1) off) = (f, nw - 1, off)"
    using r assms(2) d by (simp add: decode_encode nwriters_of_def)
  then show ?thesis
    using assms(1) by (simp add: fb_inv_def offset_of_def Done_swap_def d)
qed

lemma fb_inv_Alloc:
  assumes "fb_inv fb" and "Alloc fb sz = (fb', Inr res)"
  shows "fb_inv fb'"
proof -
  obtain f nw off where d: "decodeState (state fb) = (f, nw, off)"
    by (cases "decodeState (state fb)") auto
  from decodeState_range [OF d] have r: "0 \<le> nw" "nw < 2 ^ 16" "0 \<le> off" "off < 2 ^ 31"
    by simp_all
  show ?thesis
  proof (cases f)
    case True
    then show ?thesis
      using assms by (simp add: Alloc_def d)
  next
    case nf: False
    show ?thesis
    proof (cases "int64 (sz + off) > int (length (b fb))")
      case True
      have "decodeState (encodeState True nw off) = (True, nw, off)"
        using r by (simp add: decode_encode)
      then show ?thesis
        using assms True nf by (auto simp: Alloc_def d Let_def fb_inv_def offset_of_def)
    next
      case le: False
      let ?n = "int64 (sz + off)"
      have ge: "off \<le> ?n"
        using assms(2) le nf by (auto simp: Alloc_def d Let_def split: if_splits)
      have fb': "fb' = fb\<lparr>state := encodeState False (nw + 1) ?n\<rparr>"
        using assms(2) le nf by (auto simp: Alloc_def d Let_def split: if_splits)
      have nw: "0 \<le> nw + 1" "nw + 1 < 2 ^ 32"
        using r by simp_all
      have "?n mod 2 ^ 31 \<le> ?n"
        using ge r by (simp add: zmod_le_nonneg_dividend)
      then show ?thesis
        using assms(1) le by (simp add: fb' fb_inv_def offset_of_def decode_encode_mod [OF nw])
    qed
  qed
qed

lemma Alloc_arena: "length (b (fst (Alloc fb sz))) = length (b fb)"
  by (cases "decodeState (state fb)") (simp add: Alloc_def Let_def)

lemma fb_apply_arena: "fb_apply x fb = Inr fb' \<Longrightarrow> length (b fb') = length (b fb)"
proof (cases x)
  case (OpAlloc sz)
  assume "fb_apply x fb = Inr fb'"
  then have "fb' = fst (Alloc fb sz)"
    using OpAlloc by (cases "Alloc fb sz") (auto split: sum.splits)
  then show ?thesis
    by (simp add: Alloc_arena)
next
  case OpDone
  assume "fb_apply x fb = Inr fb'"
  then show ?thesis
    using OpDone by (cases "decodeState (state fb)") (auto simp: Done_swap_def)
next
  case OpReset
  assume "fb_apply x fb = Inr fb'"
  then show ?thesis
    using OpReset by (auto simp: Reset_def)
qed

lemma fb_apply_inv:
  assumes "fb_inv fb" and "x = OpDone \<Longrightarrow> 1 \<le> nwriters_of fb" and "fb_apply x fb = Inr fb'"
  shows "fb_inv fb'"
proof (cases x)
  case (OpAlloc sz)
  then obtain res where "Alloc fb sz = (fb', Inr res)"
    using assms(3) by (cases "Alloc fb sz") (auto split: sum.splits)
  then show ?thesis
    using fb_inv_Alloc assms(1) by blast
next
  case OpDone
  then show ?thesis
    using assms fb_inv_Done by auto
next
  case OpReset
  then show ?thesis
    using assms(3) fb_inv_Reset by auto
qed

lemma fb_run_inv:
  "fb_inv fb \<Longrightarrow> done_guarded fb ops \<Longrightarrow> fb_run fb ops = Inr fb'
     \<Longrightarrow> fb_inv fb' \<and> length (b fb') = length (b fb)"
proof (induction ops arbitrary: fb)
  case Nil
  then show ?case by simp
next
  case (Cons x xs)
  from Cons.prems(3) obtain fb1 where s1: "fb_apply x fb = Inr fb1" and r: "fb_run fb1 xs = Inr fb'"
    by (cases "fb_apply x fb") auto
  have g: "x = OpDone \<Longrightarrow> 1 \<le> nwriters_of fb"
    using Cons.prems(2) by simp
  have "fb_inv fb1"
    using fb_apply_inv [OF Cons.prems(1) g s1] by simp
  moreover have "done_guarded fb1 xs"
    using Cons.prems(2) s1 by simp
  ultimately have "fb_inv fb' \<and> length (b fb') = length (b fb1)"
    using Cons.IH r by blast
  then show ?case
    using fb_apply_arena [OF s1] by simp
qed

text \<open>
  C9, as amended. Start from the state \<open>Reset\<close> leaves and apply any sequence of
  \<open>Alloc\<close>, \<open>Done\<close> and \<open>Reset\<close> in which every \<open>Alloc\<close> returns and every \<open>Done\<close> meets
  a writer count of at least one. Then the fill offset in the state word is at most
  \<open>len(fb.b)\<close>, \<open>EndOffset() - StartOffset()\<close> is at most the capacity, and \<open>Bytes()\<close> is
  the prefix of the arena of that length.
\<close>

theorem offset_within_capacity:
  assumes "done_guarded (Reset fb0) ops" and "fb_run (Reset fb0) ops = Inr fb"
  shows "offset_of fb \<le> int (length (b fb))
    \<and> length (b fb) = length (b fb0)
    \<and> EndOffset fb - StartOffset fb \<le> int (length (b fb))
    \<and> Bytes fb = Inr (take (nat (offset_of fb)) (b fb))"
proof -
  have i: "fb_inv fb" and n: "length (b fb) = length (b (Reset fb0))"
    using fb_run_inv [OF fb_inv_Reset assms] by simp_all
  obtain f nw off where d: "decodeState (state fb) = (f, nw, off)"
    by (cases "decodeState (state fb)") auto
  from decodeState_range [OF d] have r: "0 \<le> off" "off < 2 ^ 31"
    by simp_all
  have e: "EndOffset fb = off"
    using i r by (simp add: EndOffset_def d fb_inv_def int64_id)
  show ?thesis
    using i n e by (simp add: fb_inv_def offset_of_def d StartOffset_def Bytes_def Reset_def)
qed

text \<open>
  C9 as stated allows any sequence. After \<open>Reset\<close> the writer count is \<open>1\<close>; the first
  \<open>Done\<close> brings it to \<open>0\<close> and the second encodes \<open>nw - 1 = -1\<close>, whose bits run over
  the offset field: the state decodes to offset \<open>2^31 - 1\<close> in an arena of \<open>64\<close> bytes.
\<close>

theorem offset_exceeds_capacity_after_Done_underflow:
  "map_sum id (\<lambda>fb. (decodeState (state fb), length (b fb)))
     (fb_run (Reset \<lparr>baseOffset = 0, b = replicate 64 0, child = None, state = 0\<rparr>) [OpDone, OpDone])
   = Inr ((False, 65535, 2147483647), 64)"
proof -
  have "decodeState (encodeState False (- 1) 0) = (False, 65535, 2147483647)"
    by (simp add: decodeState_def encodeState_def)
  then show ?thesis
    by (simp add: Reset_def Done_swap_def decode_encode)
qed

text \<open>The amended C9 on a run of six operations over an arena of four bytes.\<close>

theorem offset_within_capacity_witness:
  "map_sum id (\<lambda>fb. (offset_of fb, EndOffset fb - StartOffset fb, Bytes fb))
     (fb_run (Reset \<lparr>baseOffset = 0, b = replicate 4 7, child = None, state = 0\<rparr>)
        [OpAlloc 3, OpDone, OpAlloc 2, OpDone, OpReset, OpAlloc 4])
   = Inr (4, 4, Inr [7, 7, 7, 7])
   \<and> done_guarded (Reset \<lparr>baseOffset = 0, b = replicate 4 7, child = None, state = 0\<rparr>)
        [OpAlloc 3, OpDone, OpAlloc 2, OpDone, OpReset, OpAlloc 4]"
proof -
  let ?init = "\<lparr>baseOffset = 0, b = replicate 4 7, child = None, state = 0\<rparr> :: flushBuffer"
  let ?ops = "[OpAlloc 3, OpDone, OpAlloc 2, OpDone, OpReset, OpAlloc 4]"
  let ?last = "\<lparr>baseOffset = 0, b = replicate 4 7, child = None, state = encodeState False 2 4\<rparr> :: flushBuffer"
  have g: "done_guarded (Reset ?init) ?ops"
    by (simp add: Reset_def Alloc_def Done_swap_def nwriters_of_def decode_encode int64_id)
  have r: "fb_run (Reset ?init) ?ops = Inr ?last"
    by (simp add: Reset_def Alloc_def Done_swap_def decode_encode int64_id)
  have v: "map_sum id (\<lambda>fb. (offset_of fb, EndOffset fb - StartOffset fb, Bytes fb)) (Inr ?last)
      = Inr (4, 4, Inr [7, 7, 7, 7])"
    by (simp add: offset_of_def decode_encode EndOffset_def StartOffset_def Bytes_def int64_id
        numeral_eq_Suc)
  show ?thesis
    using offset_within_capacity [OF g r] g v unfolding r by blast
qed


section \<open>Claims about the flush callback and \<open>Done\<close>\<close>

lemma WriteAt_readback:
  assumes "0 \<le> pos"
  shows "take (length bs) (drop (nat pos) (WriteAt f bs pos)) = bs"
proof (cases "bs = []")
  case True
  then show ?thesis by simp
next
  case False
  let ?f' = "f @ replicate (nat pos - length f) 0"
  have "length (take (nat pos) ?f') = nat pos"
    by simp
  then have "drop (nat pos) (take (nat pos) ?f' @ bs @ drop (nat pos + length bs) ?f')
      = bs @ drop (nat pos + length bs) ?f'"
    by (metis append_eq_conv_conj)
  then show ?thesis
    using assms False by (simp add: WriteAt_def Let_def)
qed

lemma smod_nonneg: "0 \<le> a \<Longrightarrow> 0 < c \<Longrightarrow> (a::int) smod c = a mod c"
  by (simp add: signed_modulo_int_def sgn_if)

text \<open>
  C6. Let the state of \<open>fb\<close> decode to fill offset \<open>off\<close>, within the arena, in a store
  with \<open>maxSize > 0\<close> and a base offset that is not negative (and whose end offset is an
  \<open>int64\<close>). Then \<open>flush\<close> writes the first \<open>off\<close> bytes of the arena to the file at
  position \<open>baseOffset mod maxSize\<close> (reading the file back there gives those bytes), sets
  \<open>head\<close> to the child of \<open>fb\<close>, stores \<open>tailOffset = fb.EndOffset() = baseOffset + off\<close>,
  and resets \<open>fb\<close>: its state decodes to \<open>(False, 1, 0)\<close>, its base offset is \<open>0\<close> and its
  child is \<open>nil\<close>. Nothing else of the store changes.
\<close>

theorem flush_spec:
  assumes d: "decodeState (state (heap s fb)) = (full, nw, off)"
    and fit: "off \<le> int (length (b (heap s fb)))"
    and m: "0 < maxSize s"
    and base: "0 \<le> baseOffset (heap s fb)" "baseOffset (heap s fb) + off < 2 ^ 63"
  shows "flush s fb =
      Inr (s\<lparr>disk := WriteAt (disk s) (take (nat off) (b (heap s fb)))
                        (baseOffset (heap s fb) mod maxSize s),
             head := child (heap s fb),
             tailOffset := baseOffset (heap s fb) + off,
             heap := (heap s)(fb := (heap s fb)\<lparr>baseOffset := 0, state := encodeState False 1 0,
                                                child := None\<rparr>)\<rparr>)
    \<and> take (nat off) (drop (nat (baseOffset (heap s fb) mod maxSize s))
          (WriteAt (disk s) (take (nat off) (b (heap s fb))) (baseOffset (heap s fb) mod maxSize s)))
        = take (nat off) (b (heap s fb))
    \<and> EndOffset (heap s fb) = baseOffset (heap s fb) + off
    \<and> decodeState (encodeState False 1 0) = (False, 1, 0)"
proof -
  from decodeState_range [OF d] have r: "0 \<le> off"
    by simp
  have e: "EndOffset (heap s fb) = baseOffset (heap s fb) + off"
    using base r by (simp add: EndOffset_def d int64_id)
  have bytes: "Bytes (heap s fb) = Inr (take (nat off) (b (heap s fb)))"
    using fit by (simp add: Bytes_def d)
  have pos: "StartOffset (heap s fb) smod maxSize s = baseOffset (heap s fb) mod maxSize s"
    using base(1) m by (simp add: StartOffset_def smod_nonneg)
  have f: "flush s fb =
      Inr (s\<lparr>disk := WriteAt (disk s) (take (nat off) (b (heap s fb)))
                        (baseOffset (heap s fb) mod maxSize s),
             head := child (heap s fb),
             tailOffset := baseOffset (heap s fb) + off,
             heap := (heap s)(fb := (heap s fb)\<lparr>baseOffset := 0, state := encodeState False 1 0,
                                                child := None\<rparr>)\<rparr>)"
    using m by (simp add: flush_def bytes pos e Reset_def Let_def)
  have len: "length (take (nat off) (b (heap s fb))) = nat off"
    using fit r by simp
  have "0 \<le> baseOffset (heap s fb) mod maxSize s"
    using m by simp
  from WriteAt_readback [OF this, of "take (nat off) (b (heap s fb))" "disk s"]
  have rb: "take (nat off) (drop (nat (baseOffset (heap s fb) mod maxSize s))
          (WriteAt (disk s) (take (nat off) (b (heap s fb))) (baseOffset (heap s fb) mod maxSize s)))
        = take (nat off) (b (heap s fb))"
    unfolding len .
  show ?thesis
    using f rb e by (simp add: decode_encode)
qed

text \<open>
  C6 on a flush-ready buffer at base \<open>20\<close> holding three bytes, in a file of
  \<open>maxSize = 16\<close>: the bytes land at position \<open>4\<close> and the tail becomes \<open>23\<close>.
\<close>

theorem flush_spec_witness:
  "map_sum id store_view
     (flush \<lparr>disk = [], maxSize = 16, headOffset = 0, tailOffset = 0, head = Some 0, bufSize = 4,
             flushBufs = [0, 1], currBuf = 1,
             heap = (\<lambda>_. \<lparr>baseOffset = 20, b = [5, 6, 7, 8], child = Some 1,
                           state = encodeState True 0 3\<rparr>)\<rparr> 0)
   = Inr ([0, 0, 0, 0, 5, 6, 7], 23, 1, Some 1,
          [((False, 1, 0), 0, None), ((True, 0, 3), 20, Some 1)])"
  using flush_spec [of "\<lparr>disk = [], maxSize = 16, headOffset = 0, tailOffset = 0, head = Some 0,
             bufSize = 4, flushBufs = [0, 1], currBuf = 1,
             heap = (\<lambda>_. \<lparr>baseOffset = 20, b = [5, 6, 7, 8], child = Some 1,
                           state = encodeState True 0 3\<rparr>)\<rparr>" 0 True 0 3]
  by (simp add: decode_encode store_view_def buffer_view_def WriteAt_def numeral_eq_Suc)

text \<open>
  C5, as amended. Let the state of \<open>fb\<close> decode to \<open>(full, nw, off)\<close> with \<open>nw \<ge> 1\<close>. Then
  \<open>Done\<close> stores a state that decodes to \<open>(full, nw - 1, off)\<close>; it runs the callback, on
  the store with that state, exactly when \<open>nw = 1\<close> and \<open>full\<close>; and after that, if the
  \<open>child\<close> pointer of \<open>fb\<close> is not \<open>nil\<close>, it calls \<open>Done\<close> on the child. The callback is
  arbitrary here, and the child is the one \<open>fb\<close> has once the callback has returned.
\<close>

theorem Done_spec:
  assumes d: "decodeState (state (heap s fb)) = (full, nw, off)" and nw: "1 \<le> nw"
  shows "decodeState (encodeState full (nw - 1) off) = (full, nw - 1, off)
    \<and> Done callb s fb =
        (case (if nw = 1 \<and> full
               then callb (s\<lparr>heap := (heap s)(fb := (heap s fb)\<lparr>state := encodeState full (nw - 1) off\<rparr>)\<rparr>) fb
               else Inr (s\<lparr>heap := (heap s)(fb := (heap s fb)\<lparr>state := encodeState full (nw - 1) off\<rparr>)\<rparr>)) of
           Inl e \<Rightarrow> Some (Inl e)
         | Inr s' \<Rightarrow> (case child (heap s' fb) of None \<Rightarrow> Some (Inr s') | Some c \<Rightarrow> Done callb s' c))"
proof -
  from decodeState_range [OF d] have r: "0 \<le> nw" "nw < 2 ^ 16" "0 \<le> off" "off < 2 ^ 31"
    by simp_all
  have "decodeState (encodeState full (nw - 1) off) = (full, nw - 1, off)"
    using r nw by (simp add: decode_encode)
  moreover have "Done callb s fb =
        (case (if nw = 1 \<and> full
               then callb (s\<lparr>heap := (heap s)(fb := (heap s fb)\<lparr>state := encodeState full (nw - 1) off\<rparr>)\<rparr>) fb
               else Inr (s\<lparr>heap := (heap s)(fb := (heap s fb)\<lparr>state := encodeState full (nw - 1) off\<rparr>)\<rparr>)) of
           Inl e \<Rightarrow> Some (Inl e)
         | Inr s' \<Rightarrow> (case child (heap s' fb) of None \<Rightarrow> Some (Inr s') | Some c \<Rightarrow> Done callb s' c))"
    by (subst Done.simps) (simp add: Done_swap_def d)
  ultimately show ?thesis
    by simp
qed

text \<open>
  The amended C5 with the callback \<open>flush\<close> on a sealed buffer whose writer count is \<open>1\<close>:
  the buffer is flushed and reset, and since \<open>Reset\<close> clears \<open>child\<close>, the former child
  (buffer \<open>1\<close>) is left as it was.
\<close>

theorem Done_spec_witness:
  "map_option (map_sum id store_view)
     (Done flush \<lparr>disk = [], maxSize = 16, headOffset = 0, tailOffset = 0, head = Some 0, bufSize = 4,
             flushBufs = [0, 1], currBuf = 1,
             heap = (\<lambda>_. \<lparr>baseOffset = 20, b = [5, 6, 7, 8], child = Some 1,
                           state = encodeState True 1 3\<rparr>)\<rparr> 0)
   = Some (Inr ([0, 0, 0, 0, 5, 6, 7], 23, 1, Some 1,
          [((False, 1, 0), 0, None), ((True, 1, 3), 20, Some 1)]))"
  using Done_spec [of "\<lparr>disk = [], maxSize = 16, headOffset = 0, tailOffset = 0, head = Some 0,
             bufSize = 4, flushBufs = [0, 1], currBuf = 1,
             heap = (\<lambda>_. \<lparr>baseOffset = 20, b = [5, 6, 7, 8], child = Some 1,
                           state = encodeState True 1 3\<rparr>)\<rparr>" 0 True 1 3 flush]
  by (simp add: decode_encode store_view_def buffer_view_def flush_def Bytes_def StartOffset_def
      EndOffset_def Reset_def int64_id signed_modulo_int_def WriteAt_def numeral_eq_Suc)


section \<open>Runs of a store\<close>

lemmas store_eval =
  session_def newLSStore_def newFlushBuffer_def api_call_def outcomes_def final_view_def
  store_view_def buffer_view_def copy_to_slice_def
  ReserveSpace.simps spin_while_full.simps Done.simps read_chain.simps lsStore_Read.simps
  FinalizeWrite_def Init_def flush_def WriteAt_def ReadAt_def
  Alloc_def Done_swap_def Reset_def IsFull_def Bytes_def StartOffset_def EndOffset_def
  NextBuffer_def flushBuffer_Read_def
  decode_encode int64_id int32_def signed_modulo_int_def upt_conv_Cons

text \<open>
  Whenever \<open>ReserveSpace\<close> returns from a call in which \<open>Alloc\<close> has sealed the current
  buffer, it returns the \<open>nil\<close> slice, the offset of the failed \<open>Alloc\<close>, and the sealed
  buffer as the resource.
\<close>

lemma ReserveSpace_sealing_returns_nil:
  assumes "ReserveSpace s sz = Some (Inr (s', off, buf, res))"
    and "flushBufs s \<noteq> []" and "0 \<le> currBuf s smod int (length (flushBufs s))"
    and "snd (Alloc (heap s (flushBufs s ! nat (currBuf s smod int (length (flushBufs s))))) sz)
           = Inr (False, True, x, y)"
  shows "buf = None \<and> off = word_of_int x
    \<and> res = flushBufs s ! nat (currBuf s smod int (length (flushBufs s)))"
proof -
  let ?fb = "flushBufs s ! nat (currBuf s smod int (length (flushBufs s)))"
  obtain fb' where a: "Alloc (heap s ?fb) sz = (fb', Inr (False, True, x, y))"
    using assms(4) by (cases "Alloc (heap s ?fb) sz") auto
  have "y = None"
    using a by (cases "decodeState (state (heap s ?fb))") (auto simp: Alloc_def Let_def split: if_splits)
  with a assms(1,2,3) show ?thesis
    by (subst (asm) ReserveSpace.simps)
       (auto simp: Let_def split: if_splits option.splits sum.splits)
qed

text \<open>
  C1. The claim is that every \<open>ReserveSpace(size)\<close> with \<open>0 < size \<le> buffer_size\<close> returns
  a slice of \<open>size\<close> bytes, retrying after it has sealed a buffer. In the source the
  \<open>markedFull\<close> branch has no \<open>goto retry\<close>: on a store with two buffers of \<open>64\<close> bytes,
  \<open>ReserveSpace(10)\<close> returns offset \<open>0\<close> and \<open>b[0:10]\<close> of buffer \<open>0\<close>, and
  \<open>ReserveSpace(60)\<close> then seals buffer \<open>0\<close>, initialises buffer \<open>1\<close>, advances the cursor
  and returns what the failed \<open>Alloc\<close> gave: offset \<open>0\<close>, the \<open>nil\<close> slice and buffer \<open>0\<close>.
\<close>

theorem ReserveSpace_returns_nil_after_sealing:
  "outcomes (session 1024 64 2 [Reserve 10, Reserve 60])
     = Some (Inr [(Reserved 0 (Some (0, 10)) 0, 0), (Reserved 0 None 0, 0)])"
  by (simp add: store_eval)

text \<open>
  C3 as stated: scenario A of the specification, run call by call. The second
  reservation returns offset \<open>0\<close> and the \<open>nil\<close> slice, not offset \<open>10\<close> and \<open>60\<close> bytes of
  buffer \<open>1\<close>; copying the payload into it copies nothing; and \<open>tailOffset\<close> is \<open>10\<close>, not
  \<open>70\<close>, after the last call.
\<close>

theorem scenario_A_as_run:
  "outcomes (session 1024 64 2
       [Reserve 10, Fill 0 (Some (0, 10)) (replicate 10 1), Finalize 0,
        Reserve 60, Fill 0 None (replicate 60 2), Finalize 0])
     = Some (Inr [(Reserved 0 (Some (0, 10)) 0, 0), (Filled, 0), (Finalized, 0),
                  (Reserved 0 None 0, 10), (Filled, 10), (Finalized, 10)])"
  by (simp add: store_eval)

text \<open>
  A read at or above \<open>tailOffset\<close> that misses the window of the live buffers jumps back
  to \<open>retry\<close>; with no other thread running nothing changes, and the call does not
  return. At the end of scenario A this is the fate of the read of \<open>60\<close> bytes at offset
  \<open>10\<close>: buffer \<open>1\<close> starts at \<open>10\<close> and is empty.
\<close>

lemma lsStore_Read_spins:
  assumes "tailOffset s \<le> sint lssOf" and "flushBufs s \<noteq> []"
    and "0 \<le> currBuf s smod int (length (flushBufs s))"
    and "head s = Some start"
    and "\<not> (StartOffset (heap s start)
            < EndOffset (heap s (flushBufs s ! nat (currBuf s smod int (length (flushBufs s)))))
          \<and> StartOffset (heap s start) \<le> sint lssOf
          \<and> sint lssOf < EndOffset (heap s (flushBufs s ! nat (currBuf s smod int (length (flushBufs s))))))"
  shows "lsStore_Read s lssOf l = None"
proof (rule ccontr)
  assume "lsStore_Read s lssOf l \<noteq> None"
  then obtain y where y: "lsStore_Read s lssOf l = Some y"
    by auto
  let ?spin = "\<lambda>s lssOf. tailOffset s \<le> sint lssOf \<and> flushBufs s \<noteq> []
      \<and> 0 \<le> currBuf s smod int (length (flushBufs s))
      \<and> (\<exists>start. head s = Some start
        \<and> \<not> (StartOffset (heap s start)
            < EndOffset (heap s (flushBufs s ! nat (currBuf s smod int (length (flushBufs s)))))
          \<and> StartOffset (heap s start) \<le> sint lssOf
          \<and> sint lssOf < EndOffset (heap s (flushBufs s ! nat (currBuf s smod int (length (flushBufs s)))))))"
  have "\<not> ?spin s lssOf"
  proof (rule lsStore_Read.raw_induct [where P = "\<lambda>s lssOf l y. \<not> ?spin s lssOf", OF _ y],
      goal_cases)
    case (1 f s lssOf l y)
    show ?case
    proof
      assume sp: "?spin s lssOf"
      then have "f s lssOf l = Some y"
        using 1(2) by (auto simp: Let_def split: if_splits)
      then have "\<not> ?spin s lssOf"
        by (rule 1(1))
      with sp show False
        by blast
    qed
  qed
  with assms show False
    by blast
qed


lemma read_at_offset_10_spins:
  "session 1024 64 2
     [Reserve 10, Fill 0 (Some (0, 10)) (replicate 10 1), Finalize 0,
      Reserve 60, Fill 0 None (replicate 60 2), Finalize 0, ReadLog 10 60] = None"
proof -
  have r: "lsStore_Read
      \<lparr>disk = d, maxSize = 1024, headOffset = 0, tailOffset = 10, head = Some (Suc 0), bufSize = 64,
         flushBufs = [0, Suc 0], currBuf = 1, heap = h\<rparr> 10 60 = None"
    if "buffer_view (h (Suc 0)) = ((False, 2, 0), 10, None)" for d h
    using that
    by (intro lsStore_Read_spins [where start = "Suc 0"])
       (simp_all add: signed_modulo_int_def StartOffset_def EndOffset_def buffer_view_def int64_id)
  show ?thesis
    by (simp add: session_def newLSStore_def newFlushBuffer_def api_call_def
        copy_to_slice_def ReserveSpace.simps spin_while_full.simps Done.simps
        FinalizeWrite_def Init_def flush_def WriteAt_def
        Alloc_def Done_swap_def Reset_def IsFull_def Bytes_def StartOffset_def EndOffset_def
        decode_encode int64_id int32_def signed_modulo_int_def upt_conv_Cons r buffer_view_def)
qed

text \<open>
  C3, as amended. With one writer, \<open>buffer_size = 64\<close>, \<open>num_buffers = 2\<close> and
  \<open>max_size = 1024\<close>: reserving \<open>10\<close> bytes yields offset \<open>0\<close> and the slice \<open>b[0:10]\<close> of
  buffer \<open>0\<close>; after the payload \<open>0x01\<close> x 10 is written and the write finalized, buffer
  \<open>0\<close> holds \<open>10\<close> bytes with one reference left; the reservation of \<open>60\<close> bytes seals
  buffer \<open>0\<close> (\<open>10 + 60 > 64\<close>), initialises buffer \<open>1\<close> at base offset \<open>10\<close>, flushes
  buffer \<open>0\<close> to the file and moves the cursor and the head to buffer \<open>1\<close>; after that
  flush \<open>tailOffset\<close> is \<open>10\<close> and reading \<open>10\<close> bytes at offset \<open>0\<close> returns \<open>0x01\<close> x 10.
  Buffer \<open>1\<close> is not sealed in this scenario, so it is not flushed. What the second
  reservation returns is not part of the statement.
\<close>

theorem scenario_A:
  "outcomes (session 1024 64 2 [Reserve 10])
     = Some (Inr [(Reserved 0 (Some (0, 10)) 0, 0)])
   \<and> final_view (session 1024 64 2
       [Reserve 10, Fill 0 (Some (0, 10)) (replicate 10 1), Finalize 0])
     = Some (Inr ([], 0, 0, Some 0, [((False, 1, 10), 0, None), ((False, 1, 0), 0, None)]))
   \<and> map_option (map_sum id (\<lambda>x. (disk (fst x), tailOffset (fst x), currBuf (fst x), head (fst x),
                                   buffer_view (heap (fst x) 0), baseOffset (heap (fst x) 1))))
       (session 1024 64 2
          [Reserve 10, Fill 0 (Some (0, 10)) (replicate 10 1), Finalize 0, Reserve 60])
     = Some (Inr (replicate 10 1, 10, 1, Some 1, ((False, 1, 0), 0, None), 10))
   \<and> map_option (map_sum id last) (outcomes (session 1024 64 2
       [Reserve 10, Fill 0 (Some (0, 10)) (replicate 10 1), Finalize 0, Reserve 60, ReadLog 0 10]))
     = Some (Inr (ReadDone 10 (replicate 10 1) None, 10))"
  by (simp add: store_eval numeral_eq_Suc)

text \<open>
  C8. The claim is that \<open>tailOffset\<close> never decreases. On a store with three buffers of
  \<open>64\<close> bytes, a first writer reserves \<open>10\<close> bytes in buffer \<open>0\<close> and is slow to finalize.
  A second writer seals buffer \<open>0\<close> (the first \<open>Reserve 60\<close>; the \<open>Done\<close> that \<open>Init\<close> calls
  on buffer \<open>0\<close> does not flush it, and cascades to buffer \<open>1\<close>), fills buffer \<open>1\<close> with
  \<open>60\<close> bytes, finalizes, and seals buffer \<open>1\<close> by reserving \<open>10\<close> more: buffer \<open>1\<close> is
  flushed and \<open>tailOffset\<close> becomes \<open>70\<close>. Then the first writer finalizes: buffer \<open>0\<close> is
  flushed and \<open>tailOffset\<close> becomes \<open>10\<close>.
\<close>

theorem tail_offset_decreases:
  "outcomes (session 1024 64 3
       [Reserve 10, Reserve 60, Reserve 60, Finalize 1, Reserve 10, Finalize 0])
     = Some (Inr [(Reserved 0 (Some (0, 10)) 0, 0), (Reserved 0 None 0, 0),
                  (Reserved 10 (Some (0, 60)) 1, 0), (Finalized, 0),
                  (Reserved 0 None 1, 70), (Finalized, 10)])"
  by (simp add: store_eval)

text \<open>
  C5 as stated: \<open>Done\<close> at a writer count of \<open>0\<close> is not a decrement. Four writers
  reserve \<open>10\<close> bytes each in buffer \<open>0\<close>, a fifth seals it, and two of the four
  finalize. Each of these \<open>Done\<close> calls on buffer \<open>0\<close> cascades to buffer \<open>1\<close>, whose
  count \<open>Init\<close> set to \<open>2\<close>. The last cascade finds buffer \<open>1\<close> at \<open>(False, 0, 0)\<close> and
  leaves it at \<open>(False, 65535, 2^31 - 1)\<close>.
\<close>

theorem Done_at_zero_writers:
  "final_view (session 1024 64 2
       [Reserve 10, Reserve 10, Reserve 10, Reserve 10, Reserve 60, Finalize 0])
     = Some (Inr ([], 0, 1, Some 0, [((True, 3, 40), 0, Some 1), ((False, 0, 0), 40, None)]))
   \<and> final_view (session 1024 64 2
       [Reserve 10, Reserve 10, Reserve 10, Reserve 10, Reserve 60, Finalize 0, Finalize 0])
     = Some (Inr ([], 0, 1, Some 0,
                  [((True, 2, 40), 0, Some 1), ((False, 65535, 2147483647), 40, None)]))"
proof -
  have "decodeState (encodeState False (- 1) 0) = (False, 65535, 2147483647)"
    by (simp add: decodeState_def encodeState_def)
  then show ?thesis
    by (simp add: store_eval)
qed


end
